theory Spec2Isabelle
  imports Complex_Main "HOL-Library.Log_Nat" "HOL-Library.AList" "HOL-Library.Multiset"
begin

section \<open>Numbers\<close>

text \<open>
  A TypeScript \<^verbatim>\<open>number\<close> is an IEEE-754 double. Its finite values are real numbers,
  and every arithmetic operation returns the exact result rounded to the nearest double,
  ties to the even significand. The model keeps numbers as \<^typ>\<open>real\<close> and makes the
  rounding explicit: \<open>fl x\<close> is \<open>x\<close> rounded to 53 significant bits.

  The exponent range is not modelled: \<open>fl\<close> agrees with the machine whenever the exact
  result has a magnitude between \<open>2^-1022\<close> and \<open>2^1024\<close> (or is zero). Scores, points and
  capacities of an estimation are far inside that range. NaN and the infinities are not
  values of the model.

  Effort units are the integers that \<^verbatim>\<open>roundUpToFib\<close> returns. Sums of integers are
  exact on the machine below \<open>2^53\<close> and are modelled in \<^typ>\<open>int\<close>. Durations of the
  sequential estimate are multiples of one half, equally exact, and are modelled by
  exact addition in \<^typ>\<open>real\<close>. \<^verbatim>\<open>Math.ceil\<close> is the ceiling, an integer.

  A division by a capacity of 0 gives an infinity or NaN on the machine and is outside
  the model; every statement about days is about capacities other than 0.
\<close>

text \<open>\<open>pow2 e\<close> is \<open>2^e\<close> for an integer exponent of either sign.\<close>

definition pow2 :: "int \<Rightarrow> real" where
  "pow2 e = (if 0 \<le> e then 2 ^ nat e else 1 / 2 ^ nat (- e))"

text \<open>For \<open>x > 0\<close>, \<open>binade x\<close> is the exponent \<open>e\<close> with \<open>2^e \<le> x < 2^(e+1)\<close>.\<close>

definition binade :: "real \<Rightarrow> int" where
  "binade x = (if 1 \<le> x then bitlen \<lfloor>x\<rfloor> - 1 else - bitlen (\<lceil>1 / x\<rceil> - 1))"

text \<open>The nearest integer, the even one of the two when \<open>x\<close> lies half-way.\<close>

definition round_half_even :: "real \<Rightarrow> int" where
  "round_half_even x =
     (let f = \<lfloor>x\<rfloor>; d = x - of_int f in
      if d < 1 / 2 then f else if 1 / 2 < d then f + 1 else if even f then f else f + 1)"

text \<open>
  The nearest double: \<open>x\<close> is scaled so that its significand has 53 bits before the binary
  point, rounded to an integer and scaled back.
\<close>

definition fl :: "real \<Rightarrow> real" where
  "fl x = (if x = 0 then 0 else
     (let q = pow2 (binade \<bar>x\<bar> - 52) in of_int (round_half_even (x / q)) * q))"

text \<open>The operators \<^verbatim>\<open>+\<close>, \<^verbatim>\<open>*\<close> and \<^verbatim>\<open>/\<close> on numbers.\<close>

definition js_add :: "real \<Rightarrow> real \<Rightarrow> real" where
  "js_add a b = fl (a + b)"

definition js_mul :: "real \<Rightarrow> real \<Rightarrow> real" where
  "js_mul a b = fl (a * b)"

definition js_div :: "real \<Rightarrow> real \<Rightarrow> real" where
  "js_div a b = fl (a / b)"

section \<open>Factor model and scoring engine\<close>

datatype Category = Backend | Frontend | Design

text \<open>The keys of \<^verbatim>\<open>EstimateFactors\<close> and of \<^verbatim>\<open>WEIGHTS\<close>.\<close>

datatype factor_key =
    Uncertainty | Complexity | Testability | LegacyImpact
  | IntegrationDifficulty | RefactorEffort | Dependencies | RequirementVolatility

record EstimateFactors =
  uncertainty :: real
  complexity :: real
  testability :: real
  legacyImpact :: real
  integrationDifficulty :: real
  refactorEffort :: real
  dependencies :: real
  requirementVolatility :: real

text \<open>
  \<^verbatim>\<open>const FIB_NUMS = [1, 2, 3, 5, 8] as const;\<close>
\<close>

definition FIB_NUMS :: "int list" where
  "FIB_NUMS = [1, 2, 3, 5, 8]"

text \<open>A decimal literal of the source denotes the double nearest to it.\<close>

fun WEIGHTS :: "factor_key \<Rightarrow> real" where
  "WEIGHTS Uncertainty = fl 0.8"
| "WEIGHTS Complexity = fl 0.6"
| "WEIGHTS Testability = fl 0.4"
| "WEIGHTS LegacyImpact = fl 0.5"
| "WEIGHTS IntegrationDifficulty = fl 0.7"
| "WEIGHTS RefactorEffort = fl 0.4"
| "WEIGHTS Dependencies = fl 0.5"
| "WEIGHTS RequirementVolatility = fl 0.4"

text \<open>
  The \<^verbatim>\<open>for (const f of FIB_NUMS) { if (n <= f) return f; }\<close> loop of
  \<^verbatim>\<open>roundUpToFib\<close>; \<open>None\<close> when the loop runs to its end without returning.
\<close>

fun scan_fib :: "real \<Rightarrow> int list \<Rightarrow> int option" where
  "scan_fib n [] = None"
| "scan_fib n (f # fs) = (if n \<le> of_int f then Some f else scan_fib n fs)"

definition roundUpToFib :: "real \<Rightarrow> int" where
  "roundUpToFib n = (case scan_fib n FIB_NUMS of Some f \<Rightarrow> f | None \<Rightarrow> 8)"

text \<open>
  \<^verbatim>\<open>Object.entries(factors)\<close> lists the properties in the order of their creation.
  \<^verbatim>\<open>createTask\<close>, the only place that builds the object, fills it in the order of
  \<^verbatim>\<open>Object.keys(WEIGHTS)\<close>.
\<close>

definition entries :: "EstimateFactors \<Rightarrow> (factor_key \<times> real) list" where
  "entries factors =
     [(Uncertainty, uncertainty factors),
      (Complexity, complexity factors),
      (Testability, testability factors),
      (LegacyImpact, legacyImpact factors),
      (IntegrationDifficulty, integrationDifficulty factors),
      (RefactorEffort, refactorEffort factors),
      (Dependencies, dependencies factors),
      (RequirementVolatility, requirementVolatility factors)]"

record Estimate =
  rawScore :: real
  fibonacciEstimate :: int

definition estimate :: "EstimateFactors \<Rightarrow> Estimate" where
  "estimate factors =
     (let rawScore =
            foldl (\<lambda>sum (key, value). js_add sum (js_mul value (WEIGHTS key)))
              0 (entries factors)
      in \<lparr>rawScore = rawScore, fibonacciEstimate = roundUpToFib rawScore\<rparr>)"

text \<open>
  The spec's reading of the score: the exact sum of rating times decimal weight.
\<close>

fun spec_weight :: "factor_key \<Rightarrow> real" where
  "spec_weight Uncertainty = 0.8"
| "spec_weight Complexity = 0.6"
| "spec_weight Testability = 0.4"
| "spec_weight LegacyImpact = 0.5"
| "spec_weight IntegrationDifficulty = 0.7"
| "spec_weight RefactorEffort = 0.4"
| "spec_weight Dependencies = 0.5"
| "spec_weight RequirementVolatility = 0.4"


text \<open>A rating as the prompt loop of \<^verbatim>\<open>createTask\<close> accepts it: every value one of 0, 1, 2, 3.\<close>

definition valid_rating :: "EstimateFactors \<Rightarrow> bool" where
  "valid_rating factors = (\<forall>(key, value) \<in> set (entries factors). value \<in> {0, 1, 2, 3})"

section \<open>Tasks, developers and the two estimates\<close>

text \<open>
  A task carries the two fields of the \<^verbatim>\<open>estimate\<close> result. The per-factor notes are
  never read by the estimators and are left out.
\<close>

record Task = Estimate +
  name :: string
  category :: Category
  assignedTo :: string
  factors :: EstimateFactors

record Developer =
  dev_id :: string
  dev_name :: string
  role :: Category
  capacity :: real

text \<open>Dates are day numbers; \<^verbatim>\<open>setDate(getDate() + n)\<close> moves a date by \<open>n\<close> days.\<close>

type_synonym date = int

record EpicEstimate =
  totalPoints :: int
  estimatedDays :: real
  estimatedDeliveryDate :: date

text \<open>
  \<^verbatim>\<open>pointToDaysMap[task.fibonacciEstimate] || 0\<close>: a number that is not a key of the
  table reads \<^verbatim>\<open>undefined\<close>, which \<^verbatim>\<open>||\<close> replaces by 0.
\<close>

definition pointToDaysMap :: "int \<rightharpoonup> real" where
  "pointToDaysMap = [1 \<mapsto> 1, 2 \<mapsto> 1, 3 \<mapsto> 1.5, 5 \<mapsto> 2.5, 8 \<mapsto> 5]"

definition calculateEpicEstimate :: "Task list \<Rightarrow> date \<Rightarrow> EpicEstimate" where
  "calculateEpicEstimate tasks today =
     (let totalPoints = foldl (\<lambda>sum task. sum + fibonacciEstimate task) 0 tasks;
          estimatedDays =
            foldl (\<lambda>sum task. sum +
                     (case pointToDaysMap (fibonacciEstimate task) of
                        Some d \<Rightarrow> d | None \<Rightarrow> 0)) 0 tasks
      in \<lparr>totalPoints = totalPoints,
          estimatedDays = estimatedDays,
          estimatedDeliveryDate = today + \<lceil>estimatedDays\<rceil>\<rparr>)"

datatype error = TypeError

record DevEstimate =
  est_name :: string
  days :: int
  points :: int

record ParallelEstimate =
  totalDays :: int
  deliveryDate :: date
  breakdown :: "(string \<times> DevEstimate) list"

text \<open>
  \<^verbatim>\<open>tasksByDev\<close> starts as the object literal \<^verbatim>\<open>{}\<close>, which inherits the
  properties of \<^verbatim>\<open>Object.prototype\<close>. Under one of these names
  \<^verbatim>\<open>acc[task.assignedTo]\<close> reads the inherited value, which is truthy and has no
  \<^verbatim>\<open>push\<close>: the call raises a \<^verbatim>\<open>TypeError\<close>.
\<close>

definition object_prototype_keys :: "string list" where
  "object_prototype_keys =
     [''constructor'', ''toString'', ''toLocaleString'', ''valueOf'', ''hasOwnProperty'',
      ''isPrototypeOf'', ''propertyIsEnumerable'', ''__proto__'', ''__defineGetter__'',
      ''__defineSetter__'', ''__lookupGetter__'', ''__lookupSetter__'']"

text \<open>
  One step of the grouping \<^verbatim>\<open>reduce\<close>. The object is an association list in the order
  its keys were created, which is the order \<^verbatim>\<open>Object.entries\<close> lists them in (keys that
  are written like array indices come first there; only the order of the breakdown's
  entries depends on it, never an entry or \<^verbatim>\<open>totalDays\<close>).
\<close>

definition group_step ::
  "(string \<times> Task list) list \<Rightarrow> Task \<Rightarrow> error + (string \<times> Task list) list" where
  "group_step acc task =
     (case map_of acc (assignedTo task) of
        Some ts \<Rightarrow> Inr (AList.update (assignedTo task) (ts @ [task]) acc)
      | None \<Rightarrow>
          if assignedTo task \<in> set object_prototype_keys then Inl TypeError
          else Inr (AList.update (assignedTo task) [task] acc))"

fun group_from ::
  "(string \<times> Task list) list \<Rightarrow> Task list \<Rightarrow> error + (string \<times> Task list) list" where
  "group_from acc [] = Inr acc"
| "group_from acc (task # tasks) =
     (case group_step acc task of
        Inl e \<Rightarrow> Inl e
      | Inr acc' \<Rightarrow> group_from acc' tasks)"

definition tasksByDev :: "Task list \<Rightarrow> error + (string \<times> Task list) list" where
  "tasksByDev tasks = group_from [] tasks"

text \<open>
  The body of the \<^verbatim>\<open>forEach\<close> over the groups; its state is \<^verbatim>\<open>devEstimates\<close> and
  \<^verbatim>\<open>maxDays\<close>.
\<close>

definition dev_step ::
  "Developer list \<Rightarrow> (string \<times> DevEstimate) list \<times> int \<Rightarrow> string \<times> Task list
     \<Rightarrow> (string \<times> DevEstimate) list \<times> int" where
  "dev_step developers st entry =
     (case st of (devEstimates, maxDays) \<Rightarrow>
      case entry of (devId, devTasks) \<Rightarrow>
      case find (\<lambda>d. dev_id d = devId) developers of
        None \<Rightarrow> (devEstimates, maxDays)
      | Some dev \<Rightarrow>
          (let totalPoints = foldl (\<lambda>sum task. sum + fibonacciEstimate task) 0 devTasks;
               days = \<lceil>js_div (of_int totalPoints) (capacity dev)\<rceil>
           in (AList.update devId
                 \<lparr>est_name = dev_name dev, days = days, points = totalPoints\<rparr> devEstimates,
               max maxDays days)))"

definition calculateParallelEstimate ::
  "Task list \<Rightarrow> Developer list \<Rightarrow> date \<Rightarrow> error + ParallelEstimate" where
  "calculateParallelEstimate tasks developers today =
     (case tasksByDev tasks of
        Inl e \<Rightarrow> Inl e
      | Inr groups \<Rightarrow>
          (case foldl (dev_step developers) ([], 0) groups of
             (devEstimates, maxDays) \<Rightarrow>
               Inr \<lparr>totalDays = maxDays,
                    deliveryDate = today + maxDays,
                    breakdown = devEstimates\<rparr>))"

section \<open>Notions used in the statements\<close>

text \<open>The tasks of a list that are assigned to the id \<open>k\<close>, in the order of the list.\<close>

definition assigned :: "string \<Rightarrow> Task list \<Rightarrow> Task list" where
  "assigned k tasks = filter (\<lambda>t. assignedTo t = k) tasks"

text \<open>The effort units of these tasks, added up.\<close>

definition assigned_points :: "string \<Rightarrow> Task list \<Rightarrow> int" where
  "assigned_points k tasks = sum_list (map fibonacciEstimate (assigned k tasks))"

text \<open>The breakdown entry of a developer whose tasks add up to \<open>p\<close> points.\<close>

definition mk_entry :: "Developer \<Rightarrow> int \<Rightarrow> DevEstimate" where
  "mk_entry dev p =
     \<lparr>est_name = dev_name dev, days = \<lceil>js_div (of_int p) (capacity dev)\<rceil>, points = p\<rparr>"

text \<open>No task is assigned to an id that is a property name of \<^verbatim>\<open>Object.prototype\<close>.\<close>

definition no_prototype_key :: "Task list \<Rightarrow> bool" where
  "no_prototype_key tasks = (\<forall>t \<in> set tasks. assignedTo t \<notin> set object_prototype_keys)"

text \<open>The tasks collected so far under the id \<open>k\<close>; none when the id is not a key yet.\<close>

definition pending :: "(string \<times> Task list) list \<Rightarrow> string \<Rightarrow> Task list" where
  "pending acc k = (case map_of acc k of None \<Rightarrow> [] | Some ts \<Rightarrow> ts)"

text \<open>The largest \<open>days\<close> of a breakdown, and 0 for the empty breakdown.\<close>

definition max_days :: "(string \<times> DevEstimate) list \<Rightarrow> int" where
  "max_days est = Max (insert 0 (days ` snd ` set est))"

text \<open>
  The breakdown as the spec describes it: one entry for every id that has a matching
  developer and at least one assigned task. The developer of an id is the first of the
  list with that id, as \<^verbatim>\<open>developers.find\<close> returns it.
\<close>

definition spec_breakdown :: "Task list \<Rightarrow> Developer list \<Rightarrow> string \<Rightarrow> DevEstimate option" where
  "spec_breakdown tasks developers k =
     (case find (\<lambda>d. dev_id d = k) developers of
        None \<Rightarrow> None
      | Some dev \<Rightarrow>
          if assigned k tasks = [] then None else Some (mk_entry dev (assigned_points k tasks)))"

text \<open>The duration table of the spec, with 0 for every effort unit it does not list.\<close>

definition spec_duration :: "int \<Rightarrow> real" where
  "spec_duration e =
     (if e = 1 then 1 else if e = 2 then 1 else if e = 3 then 1.5
      else if e = 5 then 2.5 else if e = 8 then 5 else 0)"

text \<open>
  Tasks and developers for the examples: a task is given by its assigned id and its effort
  unit, a developer by its id and capacity.
\<close>

definition example_task :: "string \<Rightarrow> int \<Rightarrow> Task" where
  "example_task k e =
     \<lparr>rawScore = 0, fibonacciEstimate = e, name = ''task'', category = Backend, assignedTo = k,
      factors = \<lparr>uncertainty = 0, complexity = 0, testability = 0, legacyImpact = 0,
        integrationDifficulty = 0, refactorEffort = 0, dependencies = 0,
        requirementVolatility = 0\<rparr>\<rparr>"

definition example_dev :: "string \<Rightarrow> real \<Rightarrow> Developer" where
  "example_dev k c = \<lparr>dev_id = k, dev_name = ''dev'', role = Backend, capacity = c\<rparr>"

text \<open>The assigned id of the task is the id of some developer of the list.\<close>

definition matched :: "Developer list \<Rightarrow> Task \<Rightarrow> bool" where
  "matched developers t = (find (\<lambda>d. dev_id d = assignedTo t) developers \<noteq> None)"


text \<open>
  Two results of \<^verbatim>\<open>calculateParallelEstimate\<close> that differ at most in the order of the
  breakdown's entries: both raise, or both return the same \<open>totalDays\<close>, the same
  delivery date and the same entry under every id.
\<close>

definition same_parallel :: "error + ParallelEstimate \<Rightarrow> error + ParallelEstimate \<Rightarrow> bool" where
  "same_parallel a b =
     (case a of
        Inl e \<Rightarrow> (case b of Inl e' \<Rightarrow> e = e' | Inr r' \<Rightarrow> False)
      | Inr r \<Rightarrow>
          (case b of
             Inl e' \<Rightarrow> False
           | Inr r' \<Rightarrow> totalDays r = totalDays r' \<and> deliveryDate r = deliveryDate r'
               \<and> map_of (breakdown r) = map_of (breakdown r')))"

text \<open>A rating, its eight values in the order of the keys.\<close>

definition rating ::
  "real \<Rightarrow> real \<Rightarrow> real \<Rightarrow> real \<Rightarrow> real \<Rightarrow> real \<Rightarrow> real \<Rightarrow> real \<Rightarrow> EstimateFactors" where
  "rating u c t l i r d v =
     \<lparr>uncertainty = u, complexity = c, testability = t, legacyImpact = l,
      integrationDifficulty = i, refactorEffort = r, dependencies = d,
      requirementVolatility = v\<rparr>"

text \<open>Reading and replacing the value of one dimension of a rating.\<close>

fun get_rating :: "factor_key \<Rightarrow> EstimateFactors \<Rightarrow> real" where
  "get_rating Uncertainty f = uncertainty f"
| "get_rating Complexity f = complexity f"
| "get_rating Testability f = testability f"
| "get_rating LegacyImpact f = legacyImpact f"
| "get_rating IntegrationDifficulty f = integrationDifficulty f"
| "get_rating RefactorEffort f = refactorEffort f"
| "get_rating Dependencies f = dependencies f"
| "get_rating RequirementVolatility f = requirementVolatility f"

fun set_rating :: "factor_key \<Rightarrow> real \<Rightarrow> EstimateFactors \<Rightarrow> EstimateFactors" where
  "set_rating Uncertainty v f = f\<lparr>uncertainty := v\<rparr>"
| "set_rating Complexity v f = f\<lparr>complexity := v\<rparr>"
| "set_rating Testability v f = f\<lparr>testability := v\<rparr>"
| "set_rating LegacyImpact v f = f\<lparr>legacyImpact := v\<rparr>"
| "set_rating IntegrationDifficulty v f = f\<lparr>integrationDifficulty := v\<rparr>"
| "set_rating RefactorEffort v f = f\<lparr>refactorEffort := v\<rparr>"
| "set_rating Dependencies v f = f\<lparr>dependencies := v\<rparr>"
| "set_rating RequirementVolatility v f = f\<lparr>requirementVolatility := v\<rparr>"

section \<open>Rounding to the effort scale\<close>

lemma roundUpToFib_cases:
  "roundUpToFib n =
     (if n \<le> 1 then 1 else if n \<le> 2 then 2 else if n \<le> 3 then 3
      else if n \<le> 5 then 5 else 8)"
  by (simp add: roundUpToFib_def FIB_NUMS_def)


lemma roundUpToFib_mono: "m \<le> n \<Longrightarrow> roundUpToFib m \<le> roundUpToFib n"
  by (simp add: roundUpToFib_cases)

text \<open>
  C1. \<open>roundUpToFib n\<close> is the first member of 1, 2, 3, 5, 8 (scanned in ascending order) that
  is at least \<open>n\<close>, and 8 when \<open>n\<close> exceeds 8; \<open>roundUpToFib 0 = 1\<close>; the result is always
  one of 1, 2, 3, 5, 8.
\<close>

theorem roundUpToFib_first_member:
  "roundUpToFib n = (case find (\<lambda>f. n \<le> of_int f) [1, 2, 3, 5, 8] of Some f \<Rightarrow> f | None \<Rightarrow> 8)
   \<and> (n \<le> 8 \<longrightarrow> n \<le> of_int (roundUpToFib n)
         \<and> (\<forall>f \<in> {1, 2, 3, 5, 8}. n \<le> of_int f \<longrightarrow> roundUpToFib n \<le> f))
   \<and> (8 < n \<longrightarrow> roundUpToFib n = 8)
   \<and> roundUpToFib 0 = 1
   \<and> roundUpToFib n \<in> {1, 2, 3, 5, 8}"
  by (simp add: roundUpToFib_cases)

theorem roundUpToFib_first_member_witness:
  "(8 < (9::real) \<and> roundUpToFib 9 = 8)
   \<and> ((2.4::real) \<le> 8 \<and> (2.4::real) \<le> of_int (3::int) \<and> roundUpToFib 2.4 = 3)"
  using roundUpToFib_first_member [of 9] roundUpToFib_first_member [of "2.4"] by simp

section \<open>Powers of two and binades\<close>

lemma pow2_powi: "pow2 e = 2 powi e"
  by (simp add: pow2_def power_int_def inverse_eq_divide power_one_over)

lemma pow2_pos [simp]: "0 < pow2 e"
  by (simp add: pow2_powi)

lemma pow2_add: "pow2 (a + b) = pow2 a * pow2 b"
  by (simp add: pow2_powi power_int_add)

lemma pow2_Suc: "pow2 (e + 1) = 2 * pow2 e"
  by (simp add: pow2_powi power_int_add_1)

lemma pow2_of_nat: "pow2 (int n) = 2 ^ n"
  by (simp add: pow2_def)

lemma pow2_neg_nat: "pow2 (- int n) = 1 / 2 ^ n"
  by (simp add: pow2_powi power_int_minus_divide)

lemma pow2_mono: "a \<le> b \<Longrightarrow> pow2 a \<le> pow2 b"
  by (simp add: pow2_powi power_int_increasing)

lemma pow2_strict_mono: "a < b \<Longrightarrow> pow2 a < pow2 b"
  by (simp add: pow2_powi power_int_strict_increasing)

lemma real_of_int_le: "(a::int) \<le> b \<Longrightarrow> (of_int a :: real) \<le> of_int b"
  by simp

lemma binade_bounds:
  assumes "0 < x"
  shows "pow2 (binade x) \<le> x" and "x < pow2 (binade x + 1)"
proof -
  have "pow2 (binade x) \<le> x \<and> x < pow2 (binade x + 1)"
  proof (cases "1 \<le> x")
    case True
    define n where "n = \<lfloor>x\<rfloor>"
    have n: "0 < n" using True by (simp add: n_def)
    have b1: "1 \<le> bitlen n" using n bitlen_nonneg [of n] bitlen_eq_zero_iff [of n] by linarith
    define k where "k = nat (bitlen n - 1)"
    have k: "bitlen n = int k + 1" using b1 by (simp add: k_def)
    have bb: "2 ^ k \<le> n" "n < 2 ^ (k + 1)"
      using bitlen_bounds [OF n] k by (simp_all add: nat_add_distrib)
    have e: "binade x = int k" using True k by (simp add: binade_def n_def)
    have "(2::real) ^ k \<le> of_int n" using real_of_int_le [OF bb(1)] by simp
    also have "\<dots> \<le> x" by (simp add: n_def)
    finally have l: "pow2 (int k) \<le> x" by (simp add: pow2_of_nat)
    have n1: "n + 1 \<le> 2 ^ (k + 1)" using bb(2) by simp
    have "of_int (n + 1) \<le> (2::real) ^ (k + 1)"
      using real_of_int_le [OF n1] by simp
    moreover have "x < of_int (n + 1)" by (simp add: n_def)
    ultimately have "x < 2 ^ (k + 1)" by linarith
    then have u: "x < pow2 (int k + 1)" using pow2_of_nat [of "k + 1"] by (simp add: add.commute)
    show ?thesis using l u e by simp
  next
    case False
    define y where "y = 1 / x"
    have y: "1 < y" using assms False by (simp add: y_def)
    define m where "m = \<lceil>y\<rceil> - 1"
    have m: "0 < m" using y by (simp add: m_def less_ceiling_iff)
    have my: "of_int m < y" "y \<le> of_int m + 1"
      unfolding m_def by linarith+
    have b1: "1 \<le> bitlen m" using m bitlen_nonneg [of m] bitlen_eq_zero_iff [of m] by linarith
    define k where "k = nat (bitlen m - 1)"
    have k: "bitlen m = int k + 1" using b1 by (simp add: k_def)
    have bb: "2 ^ k \<le> m" "m < 2 ^ (k + 1)"
      using bitlen_bounds [OF m] k by (simp_all add: nat_add_distrib)
    have e: "binade x = - (int k + 1)" using False k by (simp add: binade_def m_def y_def)
    have "(2::real) ^ k \<le> of_int m" using real_of_int_le [OF bb(1)] by simp
    then have l: "2 ^ k < y" using my(1) by linarith
    have m1: "m + 1 \<le> 2 ^ (k + 1)" using bb(2) by simp
    have "of_int (m + 1) \<le> (2::real) ^ (k + 1)"
      using real_of_int_le [OF m1] by simp
    then have u: "y \<le> 2 ^ (k + 1)" using my(2) by simp
    have x: "x = 1 / y" using assms by (simp add: y_def)
    have "1 / 2 ^ (k + 1) \<le> x" unfolding x using u y by (simp add: frac_le)
    then have lo: "pow2 (- (int k + 1)) \<le> x"
      using pow2_neg_nat [of "k + 1"] by (simp add: add.commute)
    have "x < 1 / 2 ^ k" unfolding x using l y by (simp add: frac_less2)
    then have hi: "x < pow2 (- (int k + 1) + 1)"
      using pow2_neg_nat [of k] by simp
    show ?thesis using lo hi e by simp
  qed
  then show "pow2 (binade x) \<le> x" and "x < pow2 (binade x + 1)" by simp_all
qed

lemma binade_unique:
  assumes "pow2 e \<le> x" and "x < pow2 (e + 1)"
  shows "binade x = e"
proof -
  have x: "0 < x" using assms(1) pow2_pos [of e] by linarith
  have "pow2 e < pow2 (binade x + 1)" using assms(1) binade_bounds(2) [OF x] by linarith
  then have a: "e < binade x + 1" using pow2_mono [of "binade x + 1" e] by (cases "e < binade x + 1") auto
  have "pow2 (binade x) < pow2 (e + 1)" using assms(2) binade_bounds(1) [OF x] by linarith
  then have b: "binade x < e + 1" using pow2_mono [of "e + 1" "binade x"] by (cases "binade x < e + 1") auto
  show ?thesis using a b by simp
qed

lemma binade_mono:
  assumes "0 < x" and "x \<le> y"
  shows "binade x \<le> binade y"
proof -
  have y: "0 < y" using assms by simp
  have "pow2 (binade x) < pow2 (binade y + 1)"
    using binade_bounds(1) [OF assms(1)] binade_bounds(2) [OF y] assms(2) by linarith
  then show ?thesis using pow2_mono [of "binade y + 1" "binade x"] by (cases "binade x \<le> binade y") auto
qed

section \<open>Rounding to the nearest double\<close>

lemma rhe_of_int [simp]: "round_half_even (of_int n) = n"
  by (simp add: round_half_even_def)

lemma rhe_bounds:
  "\<lfloor>x\<rfloor> \<le> round_half_even x" "round_half_even x \<le> \<lfloor>x\<rfloor> + 1"
  by (simp_all add: round_half_even_def Let_def)

lemma rhe_err: "\<bar>of_int (round_half_even x) - x\<bar> \<le> 1 / 2"
proof -
  have "of_int \<lfloor>x\<rfloor> \<le> x" "x < of_int \<lfloor>x\<rfloor> + 1" by linarith+
  then show ?thesis by (auto simp: round_half_even_def Let_def)
qed

lemma rhe_mono:
  assumes "x \<le> y"
  shows "round_half_even x \<le> round_half_even y"
proof (cases "\<lfloor>x\<rfloor> = \<lfloor>y\<rfloor>")
  case True
  then show ?thesis using assms by (auto simp: round_half_even_def Let_def)
next
  case False
  then have "\<lfloor>x\<rfloor> + 1 \<le> \<lfloor>y\<rfloor>" using floor_mono [OF assms] by linarith
  then show ?thesis using rhe_bounds(2) [of x] rhe_bounds(1) [of y] by linarith
qed

lemma pow2_shift: "pow2 a = 2 ^ n * pow2 (a - int n)"
  using pow2_add [of "int n" "a - int n"] by (simp add: pow2_of_nat)

lemma pow2_nonneg [simp]: "0 \<le> pow2 e"
  using pow2_pos [of e] by linarith

lemma pow2_nonzero [simp]: "pow2 e \<noteq> 0"
  using pow2_pos [of e] by linarith

lemma fl_0 [simp]: "fl 0 = 0"
  by (simp add: fl_def)

lemma fl_pos_eq:
  assumes "0 < x"
  shows "fl x = of_int (round_half_even (x / pow2 (binade x - 52))) * pow2 (binade x - 52)"
  using assms by (simp add: fl_def Let_def)

lemma scaled_bounds:
  assumes "0 < x"
  shows "2 ^ 52 \<le> x / pow2 (binade x - 52)" and "x / pow2 (binade x - 52) < 2 ^ 53"
proof -
  have p: "pow2 (binade x) = 2 ^ 52 * pow2 (binade x - 52)"
    using pow2_shift [of "binade x" 52] by simp
  have q: "pow2 (binade x + 1) = 2 ^ 53 * pow2 (binade x - 52)"
    using pow2_shift [of "binade x + 1" 53] by simp
  show "2 ^ 52 \<le> x / pow2 (binade x - 52)"
    using binade_bounds(1) [OF assms] p by (simp add: pos_le_divide_eq)
  show "x / pow2 (binade x - 52) < 2 ^ 53"
    using binade_bounds(2) [OF assms] q by (simp add: pos_divide_less_eq)
qed

lemma fl_binade:
  assumes "0 < x"
  shows "pow2 (binade x) \<le> fl x" and "fl x \<le> pow2 (binade x + 1)"
proof -
  let ?q = "pow2 (binade x - 52)"
  let ?r = "round_half_even (x / ?q)"
  have p: "pow2 (binade x) = 2 ^ 52 * ?q"
    using pow2_shift [of "binade x" 52] by simp
  have q: "pow2 (binade x + 1) = 2 ^ 53 * ?q"
    using pow2_shift [of "binade x + 1" 53] by simp
  have "round_half_even (of_int (2 ^ 52)) \<le> ?r"
    using scaled_bounds(1) [OF assms] by (intro rhe_mono) simp
  then have "2 ^ 52 \<le> ?r" by (simp only: rhe_of_int)
  then have lo: "(2::real) ^ 52 \<le> of_int ?r" using real_of_int_le by fastforce
  have "?r \<le> round_half_even (of_int (2 ^ 53))"
    using scaled_bounds(2) [OF assms] by (intro rhe_mono) simp
  then have "?r \<le> 2 ^ 53" by (simp only: rhe_of_int)
  then have hi: "of_int ?r \<le> (2::real) ^ 53" using real_of_int_le by fastforce
  show "pow2 (binade x) \<le> fl x"
    unfolding fl_pos_eq [OF assms] p using lo by (simp add: mult_right_mono)
  show "fl x \<le> pow2 (binade x + 1)"
    unfolding fl_pos_eq [OF assms] q using hi by (simp add: mult_right_mono)
qed

lemma fl_pos: "0 < x \<Longrightarrow> 0 < fl x"
  using fl_binade(1) [of x] pow2_pos [of "binade x"] by linarith

lemma fl_nonneg: "0 \<le> x \<Longrightarrow> 0 \<le> fl x"
  using fl_pos [of x] by (cases "x = 0") auto

lemma fl_mono:
  assumes "0 \<le> x" and "x \<le> y"
  shows "fl x \<le> fl y"
proof (cases "x = 0")
  case True
  then show ?thesis using fl_nonneg [of y] assms by simp
next
  case False
  then have x: "0 < x" and y: "0 < y" using assms by auto
  have le: "binade x \<le> binade y" using binade_mono [OF x assms(2)] .
  show ?thesis
  proof (cases "binade x = binade y")
    case True
    have "x / pow2 (binade y - 52) \<le> y / pow2 (binade y - 52)"
      using assms(2) by (simp add: divide_right_mono)
    then have "round_half_even (x / pow2 (binade y - 52)) \<le> round_half_even (y / pow2 (binade y - 52))"
      by (rule rhe_mono)
    then have "(of_int (round_half_even (x / pow2 (binade y - 52))) :: real)
        \<le> of_int (round_half_even (y / pow2 (binade y - 52)))" by simp
    then show ?thesis
      unfolding fl_pos_eq [OF x] fl_pos_eq [OF y] True by (simp add: mult_right_mono)
  next
    case False
    then have "binade x + 1 \<le> binade y" using le by simp
    then have "pow2 (binade x + 1) \<le> pow2 (binade y)" by (rule pow2_mono)
    then show ?thesis using fl_binade(2) [OF x] fl_binade(1) [OF y] by linarith
  qed
qed

lemma fl_err:
  assumes "0 < x"
  shows "\<bar>fl x - x\<bar> \<le> pow2 (binade x - 53)" and "\<bar>fl x - x\<bar> \<le> x / 2 ^ 53"
proof -
  let ?q = "pow2 (binade x - 52)"
  let ?r = "round_half_even (x / ?q)"
  have q: "0 < ?q" by simp
  have "fl x - x = (of_int ?r - x / ?q) * ?q"
    unfolding fl_pos_eq [OF assms] by (simp add: field_simps)
  then have "\<bar>fl x - x\<bar> = \<bar>of_int ?r - x / ?q\<bar> * ?q"
    using q by (simp add: abs_mult)
  also have "\<dots> \<le> 1 / 2 * ?q"
    using rhe_err [of "x / ?q"] q by (intro mult_right_mono) simp_all
  also have "1 / 2 * ?q = pow2 (binade x - 53)"
    using pow2_Suc [of "binade x - 53"] by simp
  finally show a: "\<bar>fl x - x\<bar> \<le> pow2 (binade x - 53)" .
  have "pow2 (binade x) = 2 ^ 53 * pow2 (binade x - 53)"
    using pow2_shift [of "binade x" 53] by simp
  then have "pow2 (binade x - 53) = pow2 (binade x) / 2 ^ 53" by simp
  also have "\<dots> \<le> x / 2 ^ 53" using binade_bounds(1) [OF assms] by (simp add: divide_right_mono)
  finally show "\<bar>fl x - x\<bar> \<le> x / 2 ^ 53" using a by linarith
qed


lemma fl_eval:
  assumes "pow2 e \<le> x" and "x < pow2 (e + 1)"
  shows "fl x = of_int (round_half_even (x / pow2 (e - 52))) * pow2 (e - 52)"
proof -
  have x: "0 < x" using assms(1) pow2_pos [of e] by linarith
  show ?thesis using fl_pos_eq [OF x] binade_unique [OF assms] by simp
qed

section \<open>Integers and integer quotients\<close>




section \<open>Rounding error of the score\<close>

lemma fl_err0: "0 \<le> x \<Longrightarrow> \<bar>fl x - x\<bar> \<le> x / 2 ^ 53"
  using fl_err(2) [of x] by (cases "x = 0") simp_all

lemma fl_weight:
  assumes "0 < w" and "w \<le> 1"
  shows "0 \<le> fl w" and "\<bar>fl w - w\<bar> \<le> 1 / 2 ^ 53"
proof -
  show "0 \<le> fl w" using assms(1) by (intro fl_nonneg) simp
  have "\<bar>fl w - w\<bar> \<le> w / 2 ^ 53" using assms(1) by (intro fl_err0) simp
  also have "\<dots> \<le> 1 / 2 ^ 53" using assms(2) by (simp add: divide_right_mono)
  finally show "\<bar>fl w - w\<bar> \<le> 1 / 2 ^ 53" .
qed

lemma spec_weight_range: "0 < spec_weight k" "spec_weight k \<le> 1"
  by (cases k; simp)+

lemma WEIGHTS_spec: "WEIGHTS k = fl (spec_weight k)"
  by (cases k) simp_all

lemma WEIGHTS_nonneg: "0 \<le> WEIGHTS k"
  unfolding WEIGHTS_spec using spec_weight_range by (rule fl_weight(1))




lemma valid_rating_range:
  assumes "valid_rating fs"
  shows "\<forall>(k, v) \<in> set (entries fs). 0 \<le> v \<and> v \<le> 3"
  using assms unfolding valid_rating_def by fastforce

lemma rawScore_estimate:
  "rawScore (estimate fs)
     = foldl (\<lambda>sum (key, value). js_add sum (js_mul value (WEIGHTS key))) 0 (entries fs)"
  by (simp add: estimate_def Let_def)

lemma fib_estimate:
  "fibonacciEstimate (estimate fs) = roundUpToFib (rawScore (estimate fs))"
  by (simp add: estimate_def Let_def)




section \<open>Monotonicity and the extreme ratings\<close>

lemma fold_mono:
  assumes "list_all2 (\<lambda>(k, v) (k', v'). k' = k \<and> 0 \<le> v \<and> v \<le> v') xs ys"
    and "0 \<le> s" and "s \<le> s'"
  shows "foldl (\<lambda>sum (key, value). js_add sum (js_mul value (WEIGHTS key))) s xs
       \<le> foldl (\<lambda>sum (key, value). js_add sum (js_mul value (WEIGHTS key))) s' ys"
  using assms
proof (induction xs ys arbitrary: s s' rule: list_all2_induct)
  case Nil
  then show ?case by simp
next
  case (Cons x xs y ys)
  obtain k v where x: "x = (k, v)" by (cases x)
  obtain k' v' where y: "y = (k', v')" by (cases y)
  have kv: "k' = k" "0 \<le> v" "v \<le> v'" using Cons.hyps(1) x y by simp_all
  have W: "0 \<le> WEIGHTS k" by (rule WEIGHTS_nonneg)
  have t0: "0 \<le> v * WEIGHTS k" using kv(2) W by simp
  have t: "v * WEIGHTS k \<le> v' * WEIGHTS k" using kv(3) W by (rule mult_right_mono)
  have p0: "0 \<le> fl (v * WEIGHTS k)" using t0 by (rule fl_nonneg)
  have p: "fl (v * WEIGHTS k) \<le> fl (v' * WEIGHTS k)" using t0 t by (rule fl_mono)
  have u0: "0 \<le> s + fl (v * WEIGHTS k)" using Cons.prems(1) p0 by simp
  have u: "s + fl (v * WEIGHTS k) \<le> s' + fl (v' * WEIGHTS k)" using Cons.prems(2) p by simp
  have a: "0 \<le> js_add s (js_mul v (WEIGHTS k))"
    unfolding js_add_def js_mul_def using u0 by (rule fl_nonneg)
  have b: "js_add s (js_mul v (WEIGHTS k)) \<le> js_add s' (js_mul v' (WEIGHTS k))"
    unfolding js_add_def js_mul_def using u0 u by (rule fl_mono)
  show ?case using Cons.IH [OF a b] by (simp add: x y kv(1))
qed

lemma entries_set_rating:
  assumes "valid_rating fs" and "get_rating d fs \<le> v"
  shows "list_all2 (\<lambda>(k, v) (k', v'). k' = k \<and> 0 \<le> v \<and> v \<le> v')
           (entries fs) (entries (set_rating d v fs))"
proof -
  have r: "0 \<le> uncertainty fs" "0 \<le> complexity fs" "0 \<le> testability fs"
    "0 \<le> legacyImpact fs" "0 \<le> integrationDifficulty fs" "0 \<le> refactorEffort fs"
    "0 \<le> dependencies fs" "0 \<le> requirementVolatility fs"
    using valid_rating_range [OF assms(1)] by (simp_all add: entries_def)
  show ?thesis using assms(2) r by (cases d) (simp_all add: entries_def)
qed

text \<open>
  C6. Raising the rating of a single dimension of a valid rating, the other seven
  unchanged, never lowers \<open>rawScore\<close> and never lowers the effort unit.
\<close>

theorem estimate_monotone:
  assumes "valid_rating fs" and "v \<in> {0, 1, 2, 3}" and "get_rating d fs \<le> v"
  shows "rawScore (estimate fs) \<le> rawScore (estimate (set_rating d v fs))
     \<and> fibonacciEstimate (estimate fs) \<le> fibonacciEstimate (estimate (set_rating d v fs))"
proof -
  have "rawScore (estimate fs) \<le> rawScore (estimate (set_rating d v fs))"
    unfolding rawScore_estimate
    using entries_set_rating [OF assms(1,3)] by (rule fold_mono) simp_all
  then show ?thesis unfolding fib_estimate by (simp add: roundUpToFib_mono)
qed

theorem estimate_monotone_witness:
  "valid_rating (rating 0 1 0 0 0 2 0 3) \<and> (3::real) \<in> {0, 1, 2, 3}
   \<and> get_rating RefactorEffort (rating 0 1 0 0 0 2 0 3) \<le> 3
   \<and> set_rating RefactorEffort 3 (rating 0 1 0 0 0 2 0 3) = rating 0 1 0 0 0 3 0 3
   \<and> rawScore (estimate (rating 0 1 0 0 0 2 0 3)) \<le> rawScore (estimate (rating 0 1 0 0 0 3 0 3))
   \<and> fibonacciEstimate (estimate (rating 0 1 0 0 0 2 0 3))
       \<le> fibonacciEstimate (estimate (rating 0 1 0 0 0 3 0 3))"
proof -
  have v: "valid_rating (rating 0 1 0 0 0 2 0 3)" by code_simp
  have m: "(3::real) \<in> {0, 1, 2, 3}" by simp
  have g: "get_rating RefactorEffort (rating 0 1 0 0 0 2 0 3) \<le> 3" by (simp add: rating_def)
  have s: "set_rating RefactorEffort 3 (rating 0 1 0 0 0 2 0 3) = rating 0 1 0 0 0 3 0 3"
    by (simp add: rating_def)
  have r: "rawScore (estimate (rating 0 1 0 0 0 2 0 3))
      \<le> rawScore (estimate (rating 0 1 0 0 0 3 0 3))"
    using estimate_monotone [OF v m g, THEN conjunct1] unfolding s .
  have f: "fibonacciEstimate (estimate (rating 0 1 0 0 0 2 0 3))
      \<le> fibonacciEstimate (estimate (rating 0 1 0 0 0 3 0 3))"
    using estimate_monotone [OF v m g, THEN conjunct2] unfolding s .
  from v m g s r f show ?thesis by (intro conjI)
qed

text \<open>
  C7. The rating with every dimension 0 has \<open>rawScore\<close> 0 and effort unit 1. The rating
  with every dimension 3 has effort unit 8; its \<open>rawScore\<close> is the double next below the
  double nearest to 12.9, which prints as 12.899999999999999 and lies within \<open>2^-49\<close> of
  12.9.
\<close>

theorem estimate_extremes:
  "rawScore (estimate (rating 0 0 0 0 0 0 0 0)) = 0
   \<and> fibonacciEstimate (estimate (rating 0 0 0 0 0 0 0 0)) = 1
   \<and> rawScore (estimate (rating 3 3 3 3 3 3 3 3)) = 1815513599783731 / 2 ^ 47
   \<and> rawScore (estimate (rating 3 3 3 3 3 3 3 3)) = fl 12.9 - 1 / 2 ^ 49
   \<and> \<bar>rawScore (estimate (rating 3 3 3 3 3 3 3 3)) - 12.9\<bar> \<le> 1 / 2 ^ 49
   \<and> fibonacciEstimate (estimate (rating 3 3 3 3 3 3 3 3)) = 8"
proof -
  have a: "rawScore (estimate (rating 0 0 0 0 0 0 0 0)) = 0" by code_simp
  have b: "fibonacciEstimate (estimate (rating 0 0 0 0 0 0 0 0)) = 1" by code_simp
  have c: "rawScore (estimate (rating 3 3 3 3 3 3 3 3)) = 1815513599783731 / 2 ^ 47" by code_simp
  have d: "fl 12.9 = 7262054399134925 / 2 ^ 49" by code_simp
  have e: "rawScore (estimate (rating 3 3 3 3 3 3 3 3)) = fl 12.9 - 1 / 2 ^ 49"
    unfolding c d by simp
  have f: "\<bar>rawScore (estimate (rating 3 3 3 3 3 3 3 3)) - 12.9\<bar> \<le> 1 / 2 ^ 49"
    unfolding c by simp
  have g: "fibonacciEstimate (estimate (rating 3 3 3 3 3 3 3 3)) = 8"
    unfolding fib_estimate c by (simp add: roundUpToFib_cases)
  from a b c e f g show ?thesis by (intro conjI)
qed

theorem estimate_all3_counterexample:
  "rawScore (estimate (rating 3 3 3 3 3 3 3 3)) \<noteq> 12.9
   \<and> rawScore (estimate (rating 3 3 3 3 3 3 3 3)) \<noteq> fl 12.9
   \<and> rawScore (estimate (rating 3 3 3 3 3 3 3 3)) < 12.9"
proof -
  have c: "rawScore (estimate (rating 3 3 3 3 3 3 3 3)) = 1815513599783731 / 2 ^ 47" by code_simp
  have d: "fl 12.9 = 7262054399134925 / 2 ^ 49" by code_simp
  show ?thesis unfolding c d by simp
qed

section \<open>Grouping and the per-developer loop\<close>

lemma foldl_plus_sum_list:
  fixes a :: "'a::comm_monoid_add"
  shows "foldl (\<lambda>sum x. sum + f x) a xs = a + sum_list (map f xs)"
  by (induction xs arbitrary: a) (simp_all add: add.assoc)

lemma group_step_Inr:
  assumes "group_step acc t = Inr acc'"
  shows "map_of acc' = (map_of acc)(assignedTo t \<mapsto> pending acc (assignedTo t) @ [t])"
    and "distinct (map fst acc) \<Longrightarrow> distinct (map fst acc')"
  using assms
  by (auto simp: group_step_def pending_def update_conv' distinct_update
      split: option.splits if_splits)

lemma group_step_Inl:
  "group_step acc t = Inl e \<longleftrightarrow>
     map_of acc (assignedTo t) = None \<and> assignedTo t \<in> set object_prototype_keys"
  by (cases e) (auto simp: group_step_def split: option.splits)

lemma group_from_Inl:
  "group_from acc tasks = Inl e \<longleftrightarrow>
     (\<exists>t \<in> set tasks. map_of acc (assignedTo t) = None \<and> assignedTo t \<in> set object_prototype_keys)"
proof (induction tasks arbitrary: acc)
  case Nil
  then show ?case by simp
next
  case (Cons t ts)
  show ?case
  proof (cases "group_step acc t")
    case (Inl e')
    then show ?thesis using group_step_Inl [of acc t e'] by (cases e; cases e') auto
  next
    case (Inr acc')
    have no: "\<not> (map_of acc (assignedTo t) = None \<and> assignedTo t \<in> set object_prototype_keys)"
      using Inr group_step_Inl [of acc t e] by auto
    have m: "map_of acc' = (map_of acc)(assignedTo t \<mapsto> pending acc (assignedTo t) @ [t])"
      using group_step_Inr(1) [OF Inr] .
    have "group_from acc (t # ts) = group_from acc' ts" using Inr by simp
    also have "\<dots> = Inl e \<longleftrightarrow>
      (\<exists>t' \<in> set ts. map_of acc' (assignedTo t') = None \<and> assignedTo t' \<in> set object_prototype_keys)"
      by (rule Cons.IH)
    also have "\<dots> \<longleftrightarrow>
      (\<exists>t' \<in> set ts. map_of acc (assignedTo t') = None \<and> assignedTo t' \<in> set object_prototype_keys)"
    proof -
      have pt: "(map_of acc' k' = None \<and> k' \<in> set object_prototype_keys) \<longleftrightarrow>
                (map_of acc k' = None \<and> k' \<in> set object_prototype_keys)" for k'
        using no by (auto simp: m)
      show ?thesis by (simp only: pt)
    qed
    finally show ?thesis using no by auto
  qed
qed

lemma group_from_Inr:
  assumes "group_from acc tasks = Inr g"
  shows "pending g k = pending acc k @ assigned k tasks"
    and "dom (map_of g) = dom (map_of acc) \<union> assignedTo ` set tasks"
    and "distinct (map fst acc) \<Longrightarrow> distinct (map fst g)"
  using assms
proof (induction tasks arbitrary: acc)
  case Nil
  { case 1 then show ?case by (simp add: assigned_def) }
  { case 2 then show ?case by simp }
  { case 3 then show ?case by simp }
next
  case (Cons t ts)
  { case 1
    then obtain acc' where s: "group_step acc t = Inr acc'" and r: "group_from acc' ts = Inr g"
      by (auto split: sum.splits)
    have "pending g k = pending acc' k @ assigned k ts" using Cons.IH(1) [OF r] .
    moreover have "pending acc' k = pending acc k @ assigned k [t]"
      using group_step_Inr(1) [OF s] by (simp add: pending_def assigned_def)
    ultimately show ?case by (simp add: assigned_def) }
  { case 2
    then obtain acc' where s: "group_step acc t = Inr acc'" and r: "group_from acc' ts = Inr g"
      by (auto split: sum.splits)
    show ?case using Cons.IH(2) [OF r] group_step_Inr(1) [OF s] by auto }
  { case 3
    then obtain acc' where s: "group_step acc t = Inr acc'" and r: "group_from acc' ts = Inr g"
      by (auto split: sum.splits)
    show ?case using Cons.IH(3) [OF _ r] group_step_Inr(2) [OF s] 3 by auto }
qed

lemma tasksByDev_Inl:
  "tasksByDev tasks = Inl e \<longleftrightarrow> \<not> no_prototype_key tasks"
  by (auto simp: tasksByDev_def group_from_Inl no_prototype_key_def)

lemma tasksByDev_Inr:
  assumes "tasksByDev tasks = Inr g"
  shows "map_of g k = (if assigned k tasks = [] then None else Some (assigned k tasks))"
    and "distinct (map fst g)"
proof -
  have g: "group_from [] tasks = Inr g" using assms by (simp add: tasksByDev_def)
  have p: "pending g k = assigned k tasks"
    using group_from_Inr(1) [OF g, of k] by (simp add: pending_def)
  have d: "dom (map_of g) = assignedTo ` set tasks"
    using group_from_Inr(2) [OF g] by simp
  have e: "assigned k tasks = [] \<longleftrightarrow> k \<notin> assignedTo ` set tasks"
    by (auto simp: assigned_def filter_empty_conv)
  show "map_of g k = (if assigned k tasks = [] then None else Some (assigned k tasks))"
  proof (cases "map_of g k")
    case None
    then have "k \<notin> dom (map_of g)" by auto
    then have "k \<notin> assignedTo ` set tasks" using d by simp
    then show ?thesis using None e by simp
  next
    case (Some ts)
    then have "k \<in> dom (map_of g)" by auto
    then have "k \<in> assignedTo ` set tasks" using d by simp
    then have "assigned k tasks \<noteq> []" using e by simp
    then show ?thesis using Some p by (simp add: pending_def)
  qed
  show "distinct (map fst g)" using group_from_Inr(3) [OF g] by simp
qed

lemma update_fresh:
  "k \<notin> fst ` set al \<Longrightarrow> AList.update k v al = al @ [(k, v)]"
  by (induction al) auto

lemma dev_step_eq:
  "dev_step developers (est, m) (k, ts) =
     (case find (\<lambda>d. dev_id d = k) developers of
        None \<Rightarrow> (est, m)
      | Some dev \<Rightarrow>
          (AList.update k (mk_entry dev (sum_list (map fibonacciEstimate ts))) est,
           max m (days (mk_entry dev (sum_list (map fibonacciEstimate ts))))))"
  by (simp add: dev_step_def mk_entry_def foldl_plus_sum_list Let_def split: option.splits)

lemma max_days_snoc: "max_days (est @ [(k, v)]) = max (max_days est) (days v)"
proof -
  have "max_days (est @ [(k, v)]) = Max (insert (days v) (insert 0 (days ` snd ` set est)))"
    by (simp add: max_days_def insert_commute)
  also have "\<dots> = max (days v) (Max (insert 0 (days ` snd ` set est)))"
    by (rule Max_insert) auto
  finally show ?thesis by (simp add: max_days_def max.commute)
qed

lemma foldl_dev_step_all:
  assumes "foldl (dev_step developers) (est, m) gs = (est', m')"
    and "distinct (map fst gs)"
    and "fst ` set est \<inter> fst ` set gs = {}"
    and "distinct (map fst est)"
    and "m = max_days est"
  shows "(\<forall>k. map_of est' k =
           (case map_of gs k of
              None \<Rightarrow> map_of est k
            | Some ts \<Rightarrow>
                (case find (\<lambda>d. dev_id d = k) developers of
                   None \<Rightarrow> map_of est k
                 | Some dev \<Rightarrow> Some (mk_entry dev (sum_list (map fibonacciEstimate ts))))))
    \<and> distinct (map fst est') \<and> m' = max_days est'"
  using assms
proof (induction gs arbitrary: est m)
  case Nil
  then show ?case by auto
next
  case (Cons g gs)
  obtain k0 ts0 where g: "g = (k0, ts0)" by (cases g)
  obtain est1 m1 where s: "dev_step developers (est, m) (k0, ts0) = (est1, m1)"
    by (cases "dev_step developers (est, m) (k0, ts0)")
  have fresh: "k0 \<notin> fst ` set est" using Cons.prems(3) g by auto
  have step:
    "fst ` set est1 \<subseteq> insert k0 (fst ` set est)
     \<and> (distinct (map fst est) \<longrightarrow> distinct (map fst est1))
     \<and> (k0 \<notin> fst ` set est \<longrightarrow> m = max_days est \<longrightarrow> m1 = max_days est1)
     \<and> (\<forall>k. map_of est1 k =
           (if k = k0 then
              (case find (\<lambda>d. dev_id d = k0) developers of
                 None \<Rightarrow> map_of est k0
               | Some dev \<Rightarrow> Some (mk_entry dev (sum_list (map fibonacciEstimate ts0))))
            else map_of est k))"
  proof (cases "find (\<lambda>d. dev_id d = k0) developers")
    case None
    then have "est1 = est" "m1 = m" using s by (simp_all add: dev_step_eq)
    then show ?thesis using None by auto
  next
    case (Some dev)
    define v where "v = mk_entry dev (sum_list (map fibonacciEstimate ts0))"
    have e1: "est1 = AList.update k0 v est" and m1: "m1 = max m (days v)"
      using s Some by (simp_all add: dev_step_eq v_def)
    have "fst ` set est1 = {k0} \<union> fst ` set est" by (simp only: e1 dom_update)
    moreover have "distinct (map fst est) \<longrightarrow> distinct (map fst est1)"
      by (simp add: e1 distinct_update)
    moreover have "k0 \<notin> fst ` set est \<longrightarrow> m = max_days est \<longrightarrow> m1 = max_days est1"
      by (simp add: e1 m1 update_fresh max_days_snoc)
    moreover have "map_of est1 k = (if k = k0 then Some v else map_of est k)" for k
      by (simp add: e1 update_conv')
    ultimately show ?thesis using Some by (simp add: v_def)
  qed
  have f: "foldl (dev_step developers) (est1, m1) gs = (est', m')"
    using Cons.prems(1) unfolding g foldl_Cons s .
  have d: "distinct (map fst gs)" and n: "k0 \<notin> fst ` set gs" using Cons.prems(2) g by auto
  have s1: "fst ` set est1 \<subseteq> insert k0 (fst ` set est)" using step by blast
  have s2: "distinct (map fst est) \<longrightarrow> distinct (map fst est1)" using step by blast
  have s3: "k0 \<notin> fst ` set est \<longrightarrow> m = max_days est \<longrightarrow> m1 = max_days est1"
    using step by blast
  have i: "fst ` set est1 \<inter> fst ` set gs = {}"
  proof -
    have "fst ` set est \<inter> fst ` set gs = {}" using Cons.prems(3) by auto
    with s1 n show ?thesis by blast
  qed
  have e: "distinct (map fst est1)" using s2 Cons.prems(4) by simp
  have mm: "m1 = max_days est1" using s3 fresh Cons.prems(5) by simp
  have ng: "map_of gs k0 = None" using n by (simp add: map_of_eq_None_iff)
  have ih: "(\<forall>k. map_of est' k =
           (case map_of gs k of
              None \<Rightarrow> map_of est1 k
            | Some ts \<Rightarrow>
                (case find (\<lambda>d. dev_id d = k) developers of
                   None \<Rightarrow> map_of est1 k
                 | Some dev \<Rightarrow> Some (mk_entry dev (sum_list (map fibonacciEstimate ts))))))
    \<and> distinct (map fst est') \<and> m' = max_days est'"
    using Cons.IH [OF f d i e mm] .
  have "map_of est' k =
           (case map_of (g # gs) k of
              None \<Rightarrow> map_of est k
            | Some ts \<Rightarrow>
                (case find (\<lambda>d. dev_id d = k) developers of
                   None \<Rightarrow> map_of est k
                 | Some dev \<Rightarrow> Some (mk_entry dev (sum_list (map fibonacciEstimate ts)))))" for k
  proof (cases "k = k0")
    case True
    then show ?thesis using ih step ng g by (simp split: option.splits)
  next
    case False
    then show ?thesis using ih step g by (simp split: option.splits)
  qed
  then show ?case using ih by blast
qed

lemmas foldl_dev_step =
  foldl_dev_step_all [THEN conjunct1, rule_format]
  foldl_dev_step_all [THEN conjunct2, THEN conjunct1]
  foldl_dev_step_all [THEN conjunct2, THEN conjunct2]

lemma parallel_Inl:
  "calculateParallelEstimate tasks developers today = Inl e \<longleftrightarrow> \<not> no_prototype_key tasks"
  using tasksByDev_Inl [of tasks e]
  by (auto simp: calculateParallelEstimate_def split: sum.splits prod.splits)

lemma parallel_Inr:
  assumes "calculateParallelEstimate tasks developers today = Inr r"
  shows "map_of (breakdown r) = spec_breakdown tasks developers"
    and "distinct (map fst (breakdown r))"
    and "totalDays r = max_days (breakdown r)"
    and "deliveryDate r = today + totalDays r"
proof -
  from assms obtain g est m where g: "tasksByDev tasks = Inr g"
    and f: "foldl (dev_step developers) ([], 0) g = (est, m)"
    and r: "r = \<lparr>totalDays = m, deliveryDate = today + m, breakdown = est\<rparr>"
    by (auto simp: calculateParallelEstimate_def split: sum.splits prod.splits)
  have d: "distinct (map fst g)" using tasksByDev_Inr(2) [OF g] .
  have z: "(0::int) = max_days []" by (simp add: max_days_def)
  have "map_of est k = spec_breakdown tasks developers k" for k
    using foldl_dev_step(1) [OF f d _ _ z, of k] tasksByDev_Inr(1) [OF g, of k]
    by (auto simp: spec_breakdown_def assigned_points_def split: option.splits)
  then show "map_of (breakdown r) = spec_breakdown tasks developers" using r by auto
  show "distinct (map fst (breakdown r))" using foldl_dev_step(2) [OF f d _ _ z] r by simp
  show "totalDays r = max_days (breakdown r)" using foldl_dev_step(3) [OF f d _ _ z] r by simp
  show "deliveryDate r = today + totalDays r" using r by simp
qed

section \<open>The sequential estimate and permutations\<close>

lemma pointToDaysMap_duration:
  "(case pointToDaysMap e of Some d \<Rightarrow> d | None \<Rightarrow> 0) = spec_duration e"
  by (simp add: pointToDaysMap_def spec_duration_def)

lemma sequential_sums:
  "totalPoints (calculateEpicEstimate tasks today) = (\<Sum>t\<leftarrow>tasks. fibonacciEstimate t)"
  "estimatedDays (calculateEpicEstimate tasks today) = (\<Sum>t\<leftarrow>tasks. spec_duration (fibonacciEstimate t))"
  by (simp_all add: calculateEpicEstimate_def Let_def foldl_plus_sum_list pointToDaysMap_duration)

text \<open>
  C3. The sequential estimate: \<open>totalPoints\<close> is the sum of the effort units,
  \<open>estimatedDays\<close> the sum of the durations of the table 1 \<rightarrow> 1, 2 \<rightarrow> 1, 3 \<rightarrow> 1.5, 5 \<rightarrow> 2.5,
  8 \<rightarrow> 5 with 0 for every other effort unit, kept as a fraction, and the delivery date is
  today plus the ceiling of \<open>estimatedDays\<close>.
\<close>

theorem sequential_estimate:
  "totalPoints (calculateEpicEstimate tasks today) = (\<Sum>t\<leftarrow>tasks. fibonacciEstimate t)
   \<and> estimatedDays (calculateEpicEstimate tasks today)
       = (\<Sum>t\<leftarrow>tasks. spec_duration (fibonacciEstimate t))
   \<and> estimatedDeliveryDate (calculateEpicEstimate tasks today)
       = today + \<lceil>\<Sum>t\<leftarrow>tasks. spec_duration (fibonacciEstimate t)\<rceil>"
  by (simp add: calculateEpicEstimate_def Let_def foldl_plus_sum_list pointToDaysMap_duration)

theorem sequential_estimate_witness:
  "totalPoints (calculateEpicEstimate
      [example_task ''dev-1'' 5, example_task ''dev-2'' 3, example_task ''dev-1'' 3] 100) = 11
   \<and> estimatedDays (calculateEpicEstimate
      [example_task ''dev-1'' 5, example_task ''dev-2'' 3, example_task ''dev-1'' 3] 100) = 5.5
   \<and> estimatedDeliveryDate (calculateEpicEstimate
      [example_task ''dev-1'' 5, example_task ''dev-2'' 3, example_task ''dev-1'' 3] 100) = 106
   \<and> estimatedDays (calculateEpicEstimate [example_task ''dev-1'' 4] 100) = 0"
  using sequential_estimate
    [of "[example_task ''dev-1'' 5, example_task ''dev-2'' 3, example_task ''dev-1'' 3]" 100]
    sequential_estimate [of "[example_task ''dev-1'' 4]" 100]
  by (simp add: example_task_def spec_duration_def)

lemma sum_list_mset_cong:
  fixes f :: "'a \<Rightarrow> 'b::comm_monoid_add"
  assumes "mset xs = mset ys"
  shows "sum_list (map f xs) = sum_list (map f ys)"
proof -
  have "sum_list (map f xs) = sum_mset (image_mset f (mset xs))"
    by (simp flip: mset_map sum_mset_sum_list)
  also have "\<dots> = sum_mset (image_mset f (mset ys))" using assms by simp
  also have "\<dots> = sum_list (map f ys)" by (simp flip: mset_map sum_mset_sum_list)
  finally show ?thesis .
qed

lemma assigned_points_mset:
  assumes "mset tasks' = mset tasks"
  shows "assigned_points k tasks' = assigned_points k tasks"
    and "assigned k tasks' = [] \<longleftrightarrow> assigned k tasks = []"
proof -
  have "mset (assigned k tasks') = mset (assigned k tasks)"
    using assms by (simp add: assigned_def)
  then show "assigned_points k tasks' = assigned_points k tasks"
    unfolding assigned_points_def by (rule sum_list_mset_cong)
  have "set tasks' = set tasks" using assms by (rule mset_eq_setD)
  then show "assigned k tasks' = [] \<longleftrightarrow> assigned k tasks = []"
    by (simp add: assigned_def filter_empty_conv)
qed

lemma spec_breakdown_mset:
  assumes "mset tasks' = mset tasks"
  shows "spec_breakdown tasks' developers = spec_breakdown tasks developers"
  using assigned_points_mset [OF assms]
  by (auto simp: spec_breakdown_def fun_eq_iff split: option.splits)

lemma find_distinct_key:
  assumes "distinct (map f xs)" and "x \<in> set xs"
  shows "find (\<lambda>d. f d = f x) xs = Some x"
  using assms by (induction xs) (auto simp: image_iff)

lemma find_mset_distinct:
  assumes "distinct (map f xs)" and "mset ys = mset xs"
  shows "find (\<lambda>d. f d = k) ys = find (\<lambda>d. f d = k) xs"
proof -
  have s: "set ys = set xs" using assms(2) by (rule mset_eq_setD)
  have "mset (map f ys) = mset (map f xs)" using assms(2) by simp
  then have dy: "distinct (map f ys)" using assms(1) by (metis mset_eq_imp_distinct_iff)
  show ?thesis
  proof (cases "find (\<lambda>d. f d = k) xs")
    case None
    then have "find (\<lambda>d. f d = k) ys = None" using s by (simp add: find_None_iff)
    then show ?thesis using None by simp
  next
    case (Some x)
    then have x: "x \<in> set xs" "f x = k" by (auto simp: find_Some_iff)
    then show ?thesis using find_distinct_key [OF dy, of x] Some s by auto
  qed
qed

lemma spec_breakdown_devs_mset:
  assumes "distinct (map dev_id developers)" and "mset developers' = mset developers"
  shows "spec_breakdown tasks developers' = spec_breakdown tasks developers"
  using find_mset_distinct [OF assms]
  by (simp add: spec_breakdown_def fun_eq_iff)

lemma max_days_map_of:
  assumes "distinct (map fst a)" "distinct (map fst b)" "map_of a = map_of b"
  shows "max_days a = max_days b"
proof -
  have "set a = set b" using assms by (metis map_of_inject_set)
  then show ?thesis by (simp add: max_days_def)
qed

section \<open>Points of the breakdown\<close>









section \<open>Bounds and totals of the breakdown\<close>













section \<open>Order of tasks and developers\<close>

lemma parallel_cases:
  obtains (raises) "\<not> no_prototype_key tasks"
      "calculateParallelEstimate tasks developers today = Inl TypeError"
    | (returns) r where "no_prototype_key tasks"
      "calculateParallelEstimate tasks developers today = Inr r"
proof (cases "calculateParallelEstimate tasks developers today")
  case (Inl e)
  then show ?thesis using raises parallel_Inl [of tasks developers today e] by (cases e) simp
next
  case (Inr r)
  then have "no_prototype_key tasks"
    using parallel_Inl [of tasks developers today TypeError] by auto
  then show ?thesis using returns Inr by simp
qed

lemma same_parallel_spec:
  assumes "no_prototype_key tasks' \<longleftrightarrow> no_prototype_key tasks"
    and "spec_breakdown tasks' developers' = spec_breakdown tasks developers"
  shows "same_parallel (calculateParallelEstimate tasks' developers' today)
           (calculateParallelEstimate tasks developers today)"
proof (cases rule: parallel_cases [of tasks developers today])
  case raises
  then have "\<not> no_prototype_key tasks'" using assms(1) by simp
  then have "calculateParallelEstimate tasks' developers' today = Inl TypeError"
    by (cases rule: parallel_cases [of tasks' developers' today]) simp_all
  then show ?thesis using raises by (simp add: same_parallel_def)
next
  case (returns r)
  then have "no_prototype_key tasks'" using assms(1) by simp
  then obtain r' where r': "calculateParallelEstimate tasks' developers' today = Inr r'"
    by (cases rule: parallel_cases [of tasks' developers' today]) simp_all
  have m: "map_of (breakdown r') = map_of (breakdown r)"
    using parallel_Inr(1) [OF r'] parallel_Inr(1) [OF returns(2)] assms(2) by simp
  have "max_days (breakdown r') = max_days (breakdown r)"
    using parallel_Inr(2) [OF r'] parallel_Inr(2) [OF returns(2)] m by (rule max_days_map_of)
  then have t: "totalDays r' = totalDays r"
    using parallel_Inr(3) [OF r'] parallel_Inr(3) [OF returns(2)] by simp
  have d: "deliveryDate r' = deliveryDate r"
    using parallel_Inr(4) [OF r'] parallel_Inr(4) [OF returns(2)] t by simp
  show ?thesis using r' returns(2) m t d by (simp add: same_parallel_def)
qed

lemma no_prototype_key_mset:
  assumes "mset tasks' = mset tasks"
  shows "no_prototype_key tasks' \<longleftrightarrow> no_prototype_key tasks"
  using mset_eq_setD [OF assms] by (simp add: no_prototype_key_def)

text \<open>
  C8. The sequential totals do not depend on the order of the tasks. The parallel estimate
  does not depend on the order of the tasks either, nor on the order of the developers,
  whose ids are pairwise distinct (\<^verbatim>\<open>addDevelopers\<close> numbers them): \<open>totalDays\<close> and the
  entry of every id stay the same, only the order of the entries may change.
\<close>

theorem estimates_permutation_invariant:
  assumes "mset tasks' = mset tasks"
  shows "totalPoints (calculateEpicEstimate tasks' today)
           = totalPoints (calculateEpicEstimate tasks today)
     \<and> estimatedDays (calculateEpicEstimate tasks' today)
           = estimatedDays (calculateEpicEstimate tasks today)
     \<and> same_parallel (calculateParallelEstimate tasks' developers today)
           (calculateParallelEstimate tasks developers today)
     \<and> (\<forall>developers'. mset developers' = mset developers \<and> distinct (map dev_id developers)
           \<longrightarrow> same_parallel (calculateParallelEstimate tasks' developers' today)
                 (calculateParallelEstimate tasks developers today))"
proof -
  have p: "totalPoints (calculateEpicEstimate tasks' today)
           = totalPoints (calculateEpicEstimate tasks today)"
    unfolding sequential_sums using assms by (rule sum_list_mset_cong)
  have d: "estimatedDays (calculateEpicEstimate tasks' today)
           = estimatedDays (calculateEpicEstimate tasks today)"
    unfolding sequential_sums using assms by (rule sum_list_mset_cong)
  have k: "no_prototype_key tasks' \<longleftrightarrow> no_prototype_key tasks"
    using assms by (rule no_prototype_key_mset)
  have t: "same_parallel (calculateParallelEstimate tasks' developers today)
           (calculateParallelEstimate tasks developers today)"
    using k spec_breakdown_mset [OF assms] by (rule same_parallel_spec)
  have w: "same_parallel (calculateParallelEstimate tasks' developers' today)
             (calculateParallelEstimate tasks developers today)"
    if "mset developers' = mset developers" and "distinct (map dev_id developers)"
    for developers'
  proof -
    have "spec_breakdown tasks' developers' = spec_breakdown tasks' developers"
      using that(2,1) by (rule spec_breakdown_devs_mset)
    then have "spec_breakdown tasks' developers' = spec_breakdown tasks developers"
      using spec_breakdown_mset [OF assms] by simp
    with k show ?thesis by (rule same_parallel_spec)
  qed
  show ?thesis using p d t w by blast
qed

theorem estimates_permutation_invariant_witness:
  "mset [example_task ''dev-2'' 3, example_task ''dev-1'' 5]
     = mset [example_task ''dev-1'' 5, example_task ''dev-2'' 3]
   \<and> mset [example_dev ''dev-2'' 4, example_dev ''dev-1'' 2]
     = mset [example_dev ''dev-1'' 2, example_dev ''dev-2'' 4]
   \<and> distinct (map dev_id [example_dev ''dev-1'' 2, example_dev ''dev-2'' 4])
   \<and> same_parallel
        (calculateParallelEstimate [example_task ''dev-2'' 3, example_task ''dev-1'' 5]
           [example_dev ''dev-2'' 4, example_dev ''dev-1'' 2] 100)
        (calculateParallelEstimate [example_task ''dev-1'' 5, example_task ''dev-2'' 3]
           [example_dev ''dev-1'' 2, example_dev ''dev-2'' 4] 100)
   \<and> calculateParallelEstimate [example_task ''dev-2'' 3, example_task ''dev-1'' 5]
           [example_dev ''dev-2'' 4, example_dev ''dev-1'' 2] 100
       = Inr \<lparr>totalDays = 3, deliveryDate = 103,
           breakdown = [(''dev-2'', \<lparr>est_name = ''dev'', days = 1, points = 3\<rparr>),
                        (''dev-1'', \<lparr>est_name = ''dev'', days = 3, points = 5\<rparr>)]\<rparr>"
proof -
  have a: "mset [example_task ''dev-2'' 3, example_task ''dev-1'' 5]
     = mset [example_task ''dev-1'' 5, example_task ''dev-2'' 3]"
    by (simp add: add_mset_commute)
  have b: "mset [example_dev ''dev-2'' 4, example_dev ''dev-1'' 2]
     = mset [example_dev ''dev-1'' 2, example_dev ''dev-2'' 4]"
    by (simp add: add_mset_commute)
  have c: "distinct (map dev_id [example_dev ''dev-1'' 2, example_dev ''dev-2'' 4])"
    by (simp add: example_dev_def)
  have e: "calculateParallelEstimate [example_task ''dev-2'' 3, example_task ''dev-1'' 5]
           [example_dev ''dev-2'' 4, example_dev ''dev-1'' 2] 100
       = Inr \<lparr>totalDays = 3, deliveryDate = 103,
           breakdown = [(''dev-2'', \<lparr>est_name = ''dev'', days = 1, points = 3\<rparr>),
                        (''dev-1'', \<lparr>est_name = ''dev'', days = 3, points = 5\<rparr>)]\<rparr>"
    by code_simp
  have "same_parallel
        (calculateParallelEstimate [example_task ''dev-2'' 3, example_task ''dev-1'' 5]
           [example_dev ''dev-2'' 4, example_dev ''dev-1'' 2] 100)
        (calculateParallelEstimate [example_task ''dev-1'' 5, example_task ''dev-2'' 3]
           [example_dev ''dev-1'' 2, example_dev ''dev-2'' 4] 100)"
    using estimates_permutation_invariant [OF a, of 100 "[example_dev ''dev-1'' 2, example_dev ''dev-2'' 4]"]
      b c by blast
  with a b c e show ?thesis by (intro conjI)
qed

section \<open>Unmatched tasks and the days of a developer\<close>

lemma assigned_filter_matched:
  assumes "find (\<lambda>d. dev_id d = k) developers \<noteq> None"
  shows "assigned k (filter (matched developers) tasks) = assigned k tasks"
proof -
  have "assignedTo t = k \<Longrightarrow> matched developers t" for t
    using assms by (auto simp: matched_def)
  then show ?thesis
    unfolding assigned_def filter_filter by (intro filter_cong) auto
qed

lemma spec_breakdown_filter_matched:
  "spec_breakdown (filter (matched developers) tasks) developers
     = spec_breakdown tasks developers"
proof
  fix k
  show "spec_breakdown (filter (matched developers) tasks) developers k
     = spec_breakdown tasks developers k"
  proof (cases "find (\<lambda>d. dev_id d = k) developers")
    case None
    then show ?thesis by (simp add: spec_breakdown_def)
  next
    case (Some dev)
    then have "assigned k (filter (matched developers) tasks) = assigned k tasks"
      by (intro assigned_filter_matched) simp
    then show ?thesis using Some by (simp add: spec_breakdown_def assigned_points_def)
  qed
qed

text \<open>
  Tasks whose assigned id matches no developer leave no trace in the result, as long as no
  assigned id is a property name of \<^verbatim>\<open>Object.prototype\<close>.
\<close>

lemma unmatched_excluded:
  assumes "no_prototype_key tasks"
  shows "same_parallel
           (calculateParallelEstimate (filter (matched developers) tasks) developers today)
           (calculateParallelEstimate tasks developers today)"
proof -
  have "no_prototype_key (filter (matched developers) tasks)"
    using assms by (simp add: no_prototype_key_def)
  then have "no_prototype_key (filter (matched developers) tasks) \<longleftrightarrow> no_prototype_key tasks"
    using assms by simp
  then show ?thesis using spec_breakdown_filter_matched by (rule same_parallel_spec)
qed

text \<open>The estimate is returned whenever no assigned id is such a property name.\<close>

lemma parallel_returns:
  assumes "no_prototype_key tasks"
  shows "\<exists>r. calculateParallelEstimate tasks developers today = Inr r"
  using assms by (cases rule: parallel_cases [of tasks developers today]) simp_all

text \<open>
  C5. A task assigned to an id that matches no developer is meant to be skipped silently.
  When that id is \<^verbatim>\<open>constructor\<close> (or another property name of \<^verbatim>\<open>Object.prototype\<close>)
  the grouping step raises a \<^verbatim>\<open>TypeError\<close> instead, although the same list without the
  task is estimated normally.
\<close>

theorem unmatched_prototype_key_raises:
  "find (\<lambda>d. dev_id d = ''constructor'') [example_dev ''dev-1'' 4] = None
   \<and> calculateParallelEstimate [example_task ''dev-1'' 3, example_task ''constructor'' 2]
        [example_dev ''dev-1'' 4] 0 = Inl TypeError
   \<and> calculateParallelEstimate [example_task ''dev-1'' 3] [example_dev ''dev-1'' 4] 0
       = Inr \<lparr>totalDays = 1, deliveryDate = 1,
           breakdown = [(''dev-1'', \<lparr>est_name = ''dev'', days = 1, points = 3\<rparr>)]\<rparr>"
  by code_simp




end
